theory Spec2Isabelle
  imports Complex_Main "HOL-Library.AList" "HOL-Library.Log_Nat"
begin

section \<open>Python values\<close>

text \<open>
  The validator (\<^verbatim>\<open>scripts/validate_toy_dataset.py\<close>) works on the values that
  \<^verbatim>\<open>json.loads\<close> produces. A Python \<^verbatim>\<open>str\<close> is a \<open>string\<close> (code points below 256), a
  Python \<^verbatim>\<open>dict\<close> is an association list in insertion order whose keys are distinct, and
  a Python \<^verbatim>\<open>float\<close> is a sign, a mantissa and a binary exponent
  (\<open>Finite s m e\<close> is \<open>\<plusminus> m \<sqdot> 2\<^sup>e\<close>), an infinity or a NaN.
\<close>

datatype pyfloat = Finite bool int int | Infinity bool | NaN

datatype json =
    JNull
  | JBool bool
  | JInt int
  | JFloat pyfloat
  | JStr string
  | JArr "json list"
  | JObj "(string \<times> json) list"

type_synonym jrecord = "(string \<times> json) list"

text \<open>A \<^verbatim>\<open>pathlib.Path\<close> is the sequence of its parts; \<^verbatim>\<open>p / name\<close> appends one.\<close>

type_synonym path = "string list"

text \<open>
  The messages of the \<^verbatim>\<open>ValueError\<close>s the loaders raise, each with the values its
  f-string interpolates, in the order of the source:
  \<^item> \<^verbatim>\<open>Invalid JSON on line {i} of {path}: {e}\<close>
  \<^item> \<^verbatim>\<open>No id ('_id' or 'id') found in JSON object on line {i} of {path}: {obj}\<close>
  \<^item> \<^verbatim>\<open>Invalid qrels line {i} in {path}: expected at least 3 columns, got {len(cols)}: {cols}\<close>
  \<^item> \<^verbatim>\<open>Invalid relevance score on line {i} in {path}: {score}\<close>
\<close>

datatype message =
    InvalidJSON nat path string
  | NoIdFound nat path json
  | InvalidQrelsLine nat path nat "string list"
  | InvalidScore nat path string

text \<open>
  The exceptions that can leave the functions of the script: the \<^verbatim>\<open>ValueError\<close>s above
  (the spec's ParseError), the built-in \<^verbatim>\<open>TypeError\<close> and \<^verbatim>\<open>KeyError\<close> of an operation on a
  value of the wrong kind, the \<^verbatim>\<open>OSError\<close> of \<^verbatim>\<open>open\<close> and the \<^verbatim>\<open>csv.Error\<close> of the reader.
\<close>

datatype error = ValueError message | TypeError | KeyError | OSError | CsvError

text \<open>
  What the script takes from the Python runtime and from the file system:
  \<^verbatim>\<open>json.loads\<close> (\<open>Inl e\<close> is an exception with text \<open>e\<close>), \<^verbatim>\<open>repr\<close> for values that are
  not strings, the lines that iterating over an opened text file yields, and the items
  that iterating over \<^verbatim>\<open>csv.reader(f, delimiter="\t")\<close> yields for these lines (a row,
  or the \<^verbatim>\<open>csv.Error\<close> that ends the iteration).
\<close>

record env =
  json_loads :: "string \<Rightarrow> string + json"
  repr :: "json \<Rightarrow> string"
  files :: "path \<Rightarrow> string list option"
  csv_reader :: "string list \<Rightarrow> (error + string list) list"

subsection \<open>Truth value, \<^verbatim>\<open>str\<close>, \<^verbatim>\<open>in\<close>, indexing\<close>

fun truthy :: "json \<Rightarrow> bool" where
  "truthy JNull = False"
| "truthy (JBool b) = b"
| "truthy (JInt i) = (i \<noteq> 0)"
| "truthy (JFloat (Finite s m e)) = (m \<noteq> 0)"
| "truthy (JFloat (Infinity s)) = True"
| "truthy (JFloat NaN) = True"
| "truthy (JStr s) = (s \<noteq> [])"
| "truthy (JArr xs) = (xs \<noteq> [])"
| "truthy (JObj kvs) = (kvs \<noteq> [])"

text \<open>\<^verbatim>\<open>str(v)\<close>: a string is itself, every other value is its \<^verbatim>\<open>repr\<close>.\<close>

fun py_str :: "env \<Rightarrow> json \<Rightarrow> string" where
  "py_str rt (JStr s) = s"
| "py_str rt v = repr rt v"

text \<open>\<^verbatim>\<open>k in s\<close> for two strings: \<open>k\<close> occurs in \<open>s\<close> as a contiguous substring.\<close>

fun substring :: "string \<Rightarrow> string \<Rightarrow> bool" where
  "substring k [] = (k = [])"
| "substring k (c # cs) = (take (length k) (c # cs) = k \<or> substring k cs)"

text \<open>
  \<^verbatim>\<open>k in obj\<close> for a string \<open>k\<close>: key membership in a dict, element membership in a list,
  substring in a string, and a \<^verbatim>\<open>TypeError\<close> for a value that is not iterable.
\<close>

fun py_contains :: "json \<Rightarrow> string \<Rightarrow> error + bool" where
  "py_contains (JObj kvs) k = Inr (k \<in> set (map fst kvs))"
| "py_contains (JArr xs) k = Inr (JStr k \<in> set xs)"
| "py_contains (JStr s) k = Inr (substring k s)"
| "py_contains v k = Inl TypeError"

text \<open>\<^verbatim>\<open>obj[k]\<close> for a string \<open>k\<close>: only a dict can be indexed by a string.\<close>

fun py_getitem :: "json \<Rightarrow> string \<Rightarrow> error + json" where
  "py_getitem (JObj kvs) k = (case map_of kvs k of Some v \<Rightarrow> Inr v | None \<Rightarrow> Inl KeyError)"
| "py_getitem v k = Inl TypeError"

text \<open>\<^verbatim>\<open>d.get(k)\<close> (default \<^verbatim>\<open>None\<close>) and \<^verbatim>\<open>d.get(k, dflt)\<close> on a dict.\<close>

definition dict_get :: "(string \<times> 'v) list \<Rightarrow> string \<Rightarrow> 'v \<Rightarrow> 'v" where
  "dict_get d k dflt = (case map_of d k of Some v \<Rightarrow> v | None \<Rightarrow> dflt)"

subsection \<open>\<^verbatim>\<open>str.strip()\<close>\<close>

text \<open>The code points below 256 for which \<^verbatim>\<open>str.isspace\<close> holds.\<close>

definition py_isspace :: "char \<Rightarrow> bool" where
  "py_isspace c =
     (let n = (of_char c :: nat)
      in (9 \<le> n \<and> n \<le> 13) \<or> (28 \<le> n \<and> n \<le> 32) \<or> n = 133 \<or> n = 160)"

definition strip :: "string \<Rightarrow> string" where
  "strip s = rev (dropWhile py_isspace (rev (dropWhile py_isspace s)))"

section \<open>The JSONL record loader\<close>

text \<open>
  Lines 30 to 34 of \<^verbatim>\<open>load_jsonl\<close>: \<^verbatim>\<open>doc_id\<close> starts as \<^verbatim>\<open>None\<close>; the first key of
  \<^verbatim>\<open>id_keys\<close> that is \<^verbatim>\<open>in obj\<close> gives \<^verbatim>\<open>obj[k]\<close> and ends the loop.
\<close>

fun find_id :: "json \<Rightarrow> string list \<Rightarrow> error + json" where
  "find_id obj [] = Inr JNull"
| "find_id obj (k # ks) =
     (case py_contains obj k of
        Inl e \<Rightarrow> Inl e
      | Inr True \<Rightarrow> py_getitem obj k
      | Inr False \<Rightarrow> find_id obj ks)"

text \<open>
  Lines 39 and 40: the dict comprehension over \<^verbatim>\<open>text_keys\<close> (keys that are in the
  object, each with \<^verbatim>\<open>obj.get(k)\<close>), then \<^verbatim>\<open>data.update(obj)\<close>. Assigning to a key of a dict
  replaces the value where the key stands, or appends the key.
\<close>

definition text_view :: "string list \<Rightarrow> jrecord \<Rightarrow> jrecord" where
  "text_view text_keys obj =
     fold (\<lambda>k d. AList.update k (dict_get obj k JNull) d)
       (filter (\<lambda>k. k \<in> set (map fst obj)) text_keys) []"

definition dict_update :: "('k \<times> 'v) list \<Rightarrow> ('k \<times> 'v) list \<Rightarrow> ('k \<times> 'v) list" where
  "dict_update d obj = fold (\<lambda>(k, v) d. AList.update k v d) obj d"

definition make_record :: "string list \<Rightarrow> jrecord \<Rightarrow> jrecord" where
  "make_record text_keys obj = dict_update (text_view text_keys obj) obj"

text \<open>
  The body of the loop of \<^verbatim>\<open>load_jsonl\<close> for line \<open>i\<close>: \<open>Inr None\<close> when the line is blank
  (\<^verbatim>\<open>continue\<close>), \<open>Inr (Some (key, data))\<close> for the assignment \<^verbatim>\<open>items[str(doc_id)] = data\<close>,
  \<open>Inl\<close> for an exception. A value whose identifier lookup succeeds with a true value is
  a dict, so the last case is never reached.
\<close>

definition load_line ::
  "env \<Rightarrow> path \<Rightarrow> string list \<Rightarrow> string list \<Rightarrow> nat \<Rightarrow> string \<Rightarrow> error + (string \<times> jrecord) option"
where
  "load_line rt p id_keys text_keys i line0 =
     (let line = strip line0 in
      if line = [] then Inr None
      else case json_loads rt line of
        Inl e \<Rightarrow> Inl (ValueError (InvalidJSON i p e))
      | Inr obj \<Rightarrow>
          (case find_id obj id_keys of
             Inl e \<Rightarrow> Inl e
           | Inr doc_id \<Rightarrow>
               if \<not> truthy doc_id then Inl (ValueError (NoIdFound i p obj))
               else (case obj of
                       JObj kvs \<Rightarrow> Inr (Some (py_str rt doc_id, make_record text_keys kvs))
                     | _ \<Rightarrow> Inl TypeError)))"

text \<open>The loop \<^verbatim>\<open>for i, line in enumerate(f, 1)\<close>, from line number \<open>i\<close> on.\<close>

fun load_lines ::
  "env \<Rightarrow> path \<Rightarrow> string list \<Rightarrow> string list \<Rightarrow> nat \<Rightarrow> string list \<Rightarrow>
     (string \<times> jrecord) list \<Rightarrow> error + (string \<times> jrecord) list"
where
  "load_lines rt p id_keys text_keys i [] items = Inr items"
| "load_lines rt p id_keys text_keys i (line # rest) items =
     (case load_line rt p id_keys text_keys i line of
        Inl e \<Rightarrow> Inl e
      | Inr None \<Rightarrow> load_lines rt p id_keys text_keys (Suc i) rest items
      | Inr (Some (key, data)) \<Rightarrow>
          load_lines rt p id_keys text_keys (Suc i) rest (AList.update key data items))"

definition load_jsonl ::
  "env \<Rightarrow> path \<Rightarrow> string list \<Rightarrow> string list \<Rightarrow> error + (string \<times> jrecord) list"
where
  "load_jsonl rt p id_keys text_keys =
     (case files rt p of
        None \<Rightarrow> Inl OSError
      | Some lines \<Rightarrow> load_lines rt p id_keys text_keys 1 lines [])"

text \<open>The default arguments of \<^verbatim>\<open>load_jsonl\<close>.\<close>

definition id_keys0 :: "string list" where
  "id_keys0 = [''_id'', ''id'']"

definition text_keys0 :: "string list" where
  "text_keys0 = [''text'', ''contents'', ''body'', ''passage'', ''question'', ''query'']"

section \<open>\<^verbatim>\<open>float(s)\<close> and \<^verbatim>\<open>int(x)\<close>\<close>

text \<open>
  \<^verbatim>\<open>float\<close> of a string, as CPython computes it: underscores are allowed between digits
  only and are removed; white space is stripped; the rest is an optional sign and either
  a decimal numeral (digits with an optional point and at least one digit, then an
  optional exponent with at least one digit) or one of \<^verbatim>\<open>inf\<close>, \<^verbatim>\<open>infinity\<close>, \<^verbatim>\<open>nan\<close> in
  any case. The numeral's value is rounded to the nearest double, ties to even; a value
  beyond the largest double gives an infinity. \<open>None\<close> is the \<^verbatim>\<open>ValueError\<close> of \<^verbatim>\<open>float\<close>.
\<close>

definition is_digit :: "char \<Rightarrow> bool" where
  "is_digit c = (let n = (of_char c :: nat) in 48 \<le> n \<and> n \<le> 57)"

definition digit_val :: "char \<Rightarrow> int" where
  "digit_val c = int (of_char c) - 48"

definition digits_val :: "string \<Rightarrow> int" where
  "digits_val ds = foldl (\<lambda>a c. 10 * a + digit_val c) 0 ds"

definition to_lower :: "char \<Rightarrow> char" where
  "to_lower c = (let n = (of_char c :: nat) in if 65 \<le> n \<and> n \<le> 90 then char_of (n + 32) else c)"

text \<open>The previous character and the rest: an underscore stands between two digits.\<close>

fun drop_underscores :: "char \<Rightarrow> string \<Rightarrow> string option" where
  "drop_underscores prev [] = (if prev = CHR ''_'' then None else Some [])"
| "drop_underscores prev (c # cs) =
     (if c = CHR ''_'' then (if is_digit prev then drop_underscores c cs else None)
      else if prev = CHR ''_'' \<and> \<not> is_digit c then None
      else map_option ((#) c) (drop_underscores c cs))"

fun split_sign :: "string \<Rightarrow> bool \<times> string" where
  "split_sign [] = (False, [])"
| "split_sign (c # cs) =
     (if c = CHR ''-'' then (True, cs) else if c = CHR ''+'' then (False, cs) else (False, c # cs))"

text \<open>An unsigned decimal numeral as a mantissa \<open>m\<close> and an exponent \<open>e\<close>: its value is \<open>m \<sqdot> 10\<^sup>e\<close>.\<close>

definition parse_exponent :: "string \<Rightarrow> int option" where
  "parse_exponent s =
     (let (neg, ds) = split_sign s in
      if ds \<noteq> [] \<and> list_all is_digit ds
      then Some (if neg then - digits_val ds else digits_val ds)
      else None)"

definition parse_decimal :: "string \<Rightarrow> (int \<times> int) option" where
  "parse_decimal s =
     (let ip = takeWhile is_digit s;
          r1 = dropWhile is_digit s;
          fp = (case r1 of c # t \<Rightarrow> if c = CHR ''.'' then takeWhile is_digit t else [] | [] \<Rightarrow> []);
          r2 = (case r1 of c # t \<Rightarrow> if c = CHR ''.'' then dropWhile is_digit t else r1 | [] \<Rightarrow> [])
      in if ip = [] \<and> fp = [] then None
         else case r2 of
           [] \<Rightarrow> Some (digits_val (ip @ fp), - int (length fp))
         | c # t \<Rightarrow>
             if c = CHR ''e'' \<or> c = CHR ''E''
             then map_option (\<lambda>x. (digits_val (ip @ fp), x - int (length fp))) (parse_exponent t)
             else None)"

definition parse_inf_or_nan :: "string \<Rightarrow> pyfloat option" where
  "parse_inf_or_nan s =
     (let (neg, t) = split_sign s; u = map to_lower t in
      if u = ''inf'' \<or> u = ''infinity'' then Some (Infinity neg)
      else if u = ''nan'' then Some NaN
      else None)"

text \<open>The quotient \<open>a / b\<close> rounded to the nearest integer, ties to even.\<close>

definition round_half_even :: "int \<Rightarrow> int \<Rightarrow> int" where
  "round_half_even a b =
     (let q = a div b; r = a mod b in
      if 2 * r < b then q
      else if b < 2 * r then q + 1
      else if even q then q else q + 1)"

text \<open>
  \<open>m \<sqdot> 10\<^sup>e\<close> as a double. The value is the quotient \<open>num / den\<close> of two positive
  integers; \<open>bitlen n\<close> is the number of binary digits of \<open>n\<close>, so the binary exponent
  \<open>b\<close> of the value (\<open>2\<^sup>b \<le> num / den < 2\<^sup>b\<^sup>+\<^sup>1\<close>) is \<open>bitlen num - bitlen den\<close> or one
  less. The double is the nearest multiple of \<open>2\<^sup>b\<^sup>-\<^sup>5\<^sup>2\<close>, and of \<open>2\<^sup>-\<^sup>1\<^sup>0\<^sup>7\<^sup>4\<close> when
  \<open>b < -1022\<close> (a subnormal); from \<open>2\<^sup>1\<^sup>0\<^sup>2\<^sup>4\<close> on it is an infinity.
\<close>

definition to_double :: "bool \<Rightarrow> int \<Rightarrow> int \<Rightarrow> pyfloat" where
  "to_double neg m e10 =
     (if m = 0 then Finite neg 0 0
      else
        let num = (if 0 \<le> e10 then m * 10 ^ nat e10 else m);
            den = (if 0 \<le> e10 then 1 else 10 ^ nat (- e10));
            b0 = bitlen num - bitlen den;
            b = (if (if 0 \<le> b0 then den * 2 ^ nat b0 \<le> num else den \<le> num * 2 ^ nat (- b0))
                 then b0 else b0 - 1);
            bb = max b (- 1022);
            sh = 52 - bb;
            n = (if 0 \<le> sh then round_half_even (num * 2 ^ nat sh) den
                 else round_half_even num (den * 2 ^ nat (- sh)))
        in if 1024 \<le> bb \<or> (bb = 1023 \<and> 2 ^ 53 \<le> n) then Infinity neg
           else Finite neg n (bb - 52))"

definition float_from_string :: "string \<Rightarrow> pyfloat option" where
  "float_from_string s =
     (let (neg, body) = split_sign s in
      case parse_decimal body of
        Some (m, e) \<Rightarrow> Some (to_double neg m e)
      | None \<Rightarrow> parse_inf_or_nan s)"

definition py_float :: "string \<Rightarrow> pyfloat option" where
  "py_float s =
     (case (if CHR ''_'' \<in> set s then drop_underscores (CHR 0x00) s else Some s) of
        None \<Rightarrow> None
      | Some t \<Rightarrow> float_from_string (strip t))"

text \<open>
  \<^verbatim>\<open>int(x)\<close> of a float drops the fraction (rounds toward zero); an infinity raises
  \<^verbatim>\<open>OverflowError\<close> and a NaN raises \<^verbatim>\<open>ValueError\<close>, both \<open>None\<close> here.
\<close>

fun py_int :: "pyfloat \<Rightarrow> int option" where
  "py_int (Finite s m e) =
     (let a = (if 0 \<le> e then m * 2 ^ nat e else m div 2 ^ nat (- e))
      in Some (if s then - a else a))"
| "py_int (Infinity s) = None"
| "py_int NaN = None"

text \<open>
  Line 59, \<^verbatim>\<open>int(float(score))\<close> under \<^verbatim>\<open>try\<close>: \<open>None\<close> when either call raises.
\<close>

definition score_int :: "string \<Rightarrow> int option" where
  "score_int score = (case py_float score of None \<Rightarrow> None | Some x \<Rightarrow> py_int x)"

section \<open>The relevance table loader\<close>

type_synonym qrels = "(string \<times> (string \<times> int) list) list"

text \<open>Line 62, \<^verbatim>\<open>qrels.setdefault(qid, {})[docid] = score_int\<close>.\<close>

definition qrels_set :: "qrels \<Rightarrow> string \<Rightarrow> string \<Rightarrow> int \<Rightarrow> qrels" where
  "qrels_set qrels qid docid n =
     AList.update qid (AList.update docid n (dict_get qrels qid [])) qrels"

text \<open>
  The loop \<^verbatim>\<open>for i, cols in enumerate(reader, 1)\<close>, from number \<open>i\<close> on, over the items the
  reader yields: the number counts the rows of the reader, the empty ones too.
\<close>

fun load_rows :: "path \<Rightarrow> nat \<Rightarrow> (error + string list) list \<Rightarrow> qrels \<Rightarrow> error + qrels" where
  "load_rows p i [] qrels = Inr qrels"
| "load_rows p i (Inl e # rest) qrels = Inl e"
| "load_rows p i (Inr cols # rest) qrels =
     (if cols = [] then load_rows p (Suc i) rest qrels
      else if length cols < 3
      then Inl (ValueError (InvalidQrelsLine i p (length cols) cols))
      else
        let qid = strip (cols ! 0);
            docid = strip (cols ! 1);
            score = strip (cols ! 2)
        in case score_int score of
             None \<Rightarrow> Inl (ValueError (InvalidScore i p score))
           | Some n \<Rightarrow> load_rows p (Suc i) rest (qrels_set qrels qid docid n))"

definition load_qrels :: "env \<Rightarrow> path \<Rightarrow> error + qrels" where
  "load_qrels rt p =
     (case files rt p of
        None \<Rightarrow> Inl OSError
      | Some lines \<Rightarrow> load_rows p 1 (csv_reader rt lines) [])"

section \<open>Sampling\<close>

text \<open>
  \<^verbatim>\<open>random.sample(xs, n)\<close> draws without replacement. The random source is a stream of
  draws \<open>rnd 0, rnd 1, \<dots>\<close>; the result is the sample and the rest of the stream.
\<close>

fun random_sample :: "(nat \<Rightarrow> nat) \<Rightarrow> 'a list \<Rightarrow> nat \<Rightarrow> 'a list \<times> (nat \<Rightarrow> nat)" where
  "random_sample rnd xs 0 = ([], rnd)"
| "random_sample rnd xs (Suc n) =
     (if xs = [] then ([], rnd)
      else
        let j = rnd 0 mod length xs;
            (ys, rnd') = random_sample (\<lambda>i. rnd (Suc i)) (take j xs @ drop (Suc j) xs) n
        in (xs ! j # ys, rnd'))"

definition sample_keys :: "(nat \<Rightarrow> nat) \<Rightarrow> (string \<times> 'v) list \<Rightarrow> nat \<Rightarrow> string list \<times> (nat \<Rightarrow> nat)" where
  "sample_keys rnd d n =
     (let keys = map fst d in
      if keys = [] then ([], rnd)
      else random_sample rnd keys (min n (length keys)))"

section \<open>The consistency check and the report\<close>

text \<open>
  What \<^verbatim>\<open>print\<close> receives: one item for each argument. An f-string is the sequence of
  its parts; a Python \<^verbatim>\<open>set\<close> is a set, so the order in which \<^verbatim>\<open>list(missing_docs)\<close>
  enumerates it is left open.
\<close>

datatype pitem =
    PStr string
  | PNum nat
  | PVal json
  | PKeys "string list"
  | PPath path
  | PErr error
  | PScores "(string \<times> int) list"
  | PSet "string set"
  | PFmt "pitem list"

datatype stream = Stdout | Stderr

type_synonym out = "stream \<times> pitem list"

text \<open>Lines 121 to 126 of \<^verbatim>\<open>main\<close>.\<close>

definition missing_queries :: "qrels \<Rightarrow> (string \<times> jrecord) list \<Rightarrow> string list" where
  "missing_queries qrels queries =
     filter (\<lambda>q. q \<notin> set (map fst queries)) (map fst qrels)"

definition missing_docs :: "qrels \<Rightarrow> (string \<times> jrecord) list \<Rightarrow> string set" where
  "missing_docs qrels corpus =
     fold (\<lambda>(q, docs) acc.
             fold (\<lambda>d acc. if d \<notin> set (map fst corpus) then insert d acc else acc)
               (map fst docs) acc)
       qrels {}"

text \<open>
  \<^verbatim>\<open>x or y\<close> and the slice \<^verbatim>\<open>x[:400]\<close>, which only a string or a list has: a number or a
  truth value raises \<^verbatim>\<open>TypeError\<close>, and a dict raises too (\<^verbatim>\<open>TypeError\<close>, or \<^verbatim>\<open>KeyError\<close> from
  Python 3.12 on; the model has \<^verbatim>\<open>TypeError\<close> for both).
\<close>

definition py_or :: "json \<Rightarrow> json \<Rightarrow> json" where
  "py_or x y = (if truthy x then x else y)"

fun slice400 :: "json \<Rightarrow> error + json" where
  "slice400 (JStr s) = Inr (JStr (take 400 s))"
| "slice400 (JArr xs) = Inr (JArr (take 400 xs))"
| "slice400 v = Inl TypeError"

text \<open>Lines 104 to 110: the body of the loop over the sampled document ids.\<close>

definition doc_text :: "jrecord \<Rightarrow> json" where
  "doc_text doc =
     py_or (py_or (py_or (py_or (dict_get doc ''text'' JNull) (dict_get doc ''contents'' JNull))
                     (dict_get doc ''body'' JNull))
              (dict_get doc ''passage'' JNull))
       (JStr [])"

definition show_doc :: "string \<Rightarrow> jrecord \<Rightarrow> out list \<times> error option" where
  "show_doc docid doc =
     (let o1 = [(Stdout, [PStr (CHR 0x0A # ''Sample doc id:''), PStr docid]),
                (Stdout, [PStr ''Fields:'', PKeys (map fst doc)])];
          title = dict_get doc ''title'' (JStr []);
          text = doc_text doc;
          o2 = o1 @ [(Stdout, [PStr ''Title:'', PVal title])]
      in case slice400 text of
           Inl e \<Rightarrow> (o2, Some e)
         | Inr t \<Rightarrow> (o2 @ [(Stdout, [PStr ''Text (first 400 chars):'', PVal t])], None))"

fun show_docs :: "(string \<times> jrecord) list \<Rightarrow> string list \<Rightarrow> out list \<times> error option" where
  "show_docs corpus [] = ([], None)"
| "show_docs corpus (docid # rest) =
     (case map_of corpus docid of
        None \<Rightarrow> ([], Some KeyError)
      | Some doc \<Rightarrow>
          (case show_doc docid doc of
             (os, Some e) \<Rightarrow> (os, Some e)
           | (os, None) \<Rightarrow> (case show_docs corpus rest of (os', r) \<Rightarrow> (os @ os', r))))"

text \<open>Lines 114 to 118: the body of the loop over the sampled query ids.\<close>

definition query_text :: "jrecord \<Rightarrow> json" where
  "query_text q =
     py_or (py_or (py_or (dict_get q ''text'' JNull) (dict_get q ''question'' JNull))
              (dict_get q ''query'' JNull))
       (JStr [])"

definition show_query :: "qrels \<Rightarrow> string \<Rightarrow> jrecord \<Rightarrow> out list" where
  "show_query qrels qid q =
     [(Stdout, [PStr (CHR 0x0A # ''Sample query id:''), PStr qid]),
      (Stdout, [PStr ''Query text:'', PVal (query_text q)]),
      (Stdout, [PStr ''qrels for sample_q:'', PScores (dict_get qrels qid [])])]"

fun show_queries ::
  "qrels \<Rightarrow> (string \<times> jrecord) list \<Rightarrow> string list \<Rightarrow> out list \<times> error option" where
  "show_queries qrels queries [] = ([], None)"
| "show_queries qrels queries (qid # rest) =
     (case map_of queries qid of
        None \<Rightarrow> ([], Some KeyError)
      | Some q \<Rightarrow>
          (case show_queries qrels queries rest of (os', r) \<Rightarrow> (show_query qrels qid q @ os', r)))"

text \<open>Lines 121 to 134: the check of the references, its warnings and the last line.\<close>

definition check_refs ::
  "qrels \<Rightarrow> (string \<times> jrecord) list \<Rightarrow> (string \<times> jrecord) list \<Rightarrow> out list" where
  "check_refs qrels corpus queries =
     (let mq = missing_queries qrels queries;
          md = missing_docs qrels corpus
      in (if mq \<noteq> []
          then [(Stdout, [PStr (CHR 0x0A # ''WARNING: qrels reference query ids not present in queries.jsonl:''),
                          PKeys mq])]
          else [])
         @ (if md \<noteq> {}
            then [(Stdout, [PStr (CHR 0x0A # ''WARNING: qrels reference doc ids not present in corpus.jsonl:''),
                            PSet md])]
            else [])
         @ [(Stdout, [PStr (CHR 0x0A # ''Validation completed successfully.'')])])"

text \<open>Lines 90 to 93: the three loaders under one \<^verbatim>\<open>try\<close>; the first exception ends it.\<close>

definition load_all ::
  "env \<Rightarrow> path \<Rightarrow> path \<Rightarrow> path \<Rightarrow>
     error + ((string \<times> jrecord) list \<times> (string \<times> jrecord) list \<times> qrels)" where
  "load_all rt corpus_file queries_file qrels_file =
     (case load_jsonl rt corpus_file id_keys0 text_keys0 of
        Inl e \<Rightarrow> Inl e
      | Inr corpus \<Rightarrow>
          (case load_jsonl rt queries_file id_keys0 text_keys0 of
             Inl e \<Rightarrow> Inl e
           | Inr queries \<Rightarrow>
               (case load_qrels rt qrels_file of
                  Inl e \<Rightarrow> Inl e
                | Inr qrels \<Rightarrow> Inr (corpus, queries, qrels))))"

text \<open>Lines 98 to 134: what \<^verbatim>\<open>main\<close> does with a loaded dataset.\<close>

definition report ::
  "(nat \<Rightarrow> nat) \<Rightarrow> (string \<times> jrecord) list \<Rightarrow> (string \<times> jrecord) list \<Rightarrow> qrels \<Rightarrow>
     out list \<times> (error + int)" where
  "report rnd corpus queries qrels =
     (let sizes = [(Stdout, [PFmt [PStr ''corpus size: '', PNum (length corpus)]]),
                   (Stdout, [PFmt [PStr ''queries size: '', PNum (length queries)]]),
                   (Stdout, [PFmt [PStr ''qrels size: '', PNum (length qrels)]])];
          (docids, rnd1) = sample_keys rnd corpus 1
      in case show_docs corpus docids of
           (o1, Some e) \<Rightarrow> (sizes @ o1, Inl e)
         | (o1, None) \<Rightarrow>
             (let (qids, rnd2) = sample_keys rnd1 queries 1
              in case show_queries qrels queries qids of
                   (o2, Some e) \<Rightarrow> (sizes @ o1 @ o2, Inl e)
                 | (o2, None) \<Rightarrow>
                     (sizes @ o1 @ o2 @ check_refs qrels corpus queries, Inr 0)))"

text \<open>
  \<^verbatim>\<open>main(data_path, split)\<close>: what it prints, and the exit code it returns (\<open>Inr\<close>) or the
  exception that leaves it (\<open>Inl\<close>). A path exists when the file system has it.
\<close>

definition main :: "env \<Rightarrow> (nat \<Rightarrow> nat) \<Rightarrow> path \<Rightarrow> string \<Rightarrow> out list \<times> (error + int)" where
  "main rt rnd data_path split =
     (let corpus_file = data_path @ [''corpus.jsonl''];
          queries_file = data_path @ [''queries.jsonl''];
          qrels_file = data_path @ [''qrels'', split @ ''.tsv''];
          missing = filter (\<lambda>p. files rt p = None) [corpus_file, queries_file, qrels_file]
      in if missing \<noteq> []
         then ((Stdout, [PStr ''ERROR: missing expected files:''])
                 # map (\<lambda>m. (Stdout, [PStr ''  '', PPath m])) missing,
               Inr 2)
         else case load_all rt corpus_file queries_file qrels_file of
                Inl e \<Rightarrow> ([(Stderr, [PStr ''ERROR:'', PErr e])], Inr 1)
              | Inr (corpus, queries, qrels) \<Rightarrow> report rnd corpus queries qrels)"

section \<open>Notions used to state the properties\<close>

text \<open>
  A line makes \<^verbatim>\<open>load_jsonl\<close> raise: it is not blank and either \<^verbatim>\<open>json.loads\<close> raises, or
  the identifier lookup raises, or the identifier it finds is not true.
\<close>

definition line_fails :: "env \<Rightarrow> string list \<Rightarrow> string \<Rightarrow> bool" where
  "line_fails rt id_keys line =
     (strip line \<noteq> [] \<and>
      (case json_loads rt (strip line) of
         Inl e \<Rightarrow> True
       | Inr obj \<Rightarrow> (case find_id obj id_keys of Inl e \<Rightarrow> True | Inr doc_id \<Rightarrow> \<not> truthy doc_id)))"

text \<open>The assignments \<^verbatim>\<open>items[key] = data\<close> of the lines from number \<open>i\<close> on, in file order.\<close>

fun entries ::
  "env \<Rightarrow> path \<Rightarrow> string list \<Rightarrow> string list \<Rightarrow> nat \<Rightarrow> string list \<Rightarrow> (string \<times> jrecord) list"
where
  "entries rt p id_keys text_keys i [] = []"
| "entries rt p id_keys text_keys i (line # rest) =
     (case load_line rt p id_keys text_keys i line of
        Inr (Some e) \<Rightarrow> e # entries rt p id_keys text_keys (Suc i) rest
      | _ \<Rightarrow> entries rt p id_keys text_keys (Suc i) rest)"

text \<open>
  The spec's duplicate-id collisions: the number of keys in a sequence that an earlier
  position (or \<open>seen\<close>) already holds.
\<close>

fun collisions :: "'k list \<Rightarrow> 'k list \<Rightarrow> nat" where
  "collisions seen [] = 0"
| "collisions seen (k # ks) = (if k \<in> set seen then 1 else 0) + collisions (k # seen) ks"




text \<open>
  The spec's primary text content, following its words: the value of the first field
  of the priority list that is present in the document, the empty string when none is.
\<close>

definition spec_primary_text :: "string list \<Rightarrow> jrecord \<Rightarrow> json" where
  "spec_primary_text names doc =
     (case filter (\<lambda>k. k \<in> set (map fst doc)) names of
        [] \<Rightarrow> JStr []
      | k # _ \<Rightarrow> dict_get doc k JNull)"

text \<open>The same with the test of the code: the first field whose value is true.\<close>

definition first_true_text :: "string list \<Rightarrow> jrecord \<Rightarrow> json" where
  "first_true_text names doc =
     (case filter (\<lambda>k. truthy (dict_get doc k JNull)) names of
        [] \<Rightarrow> JStr []
      | k # _ \<Rightarrow> dict_get doc k JNull)"

section \<open>An example file system\<close>

text \<open>
  The lines of the example files with the values \<^verbatim>\<open>json.loads\<close> gives for them; any
  other text is taken as invalid JSON.
\<close>

definition toy_json :: "(string \<times> json) list" where
  \<open>toy_json =
     [(''{"_id":"d1","title":"T","text":"hello world"}'',
       JObj [(''_id'', JStr ''d1''), (''title'', JStr ''T''), (''text'', JStr ''hello world'')]),
      (''{"_id":"q1","text":"hi"}'',
       JObj [(''_id'', JStr ''q1''), (''text'', JStr ''hi'')]),
      (''{"title":"T2","id":"d1","body":"again"}'',
       JObj [(''title'', JStr ''T2''), (''id'', JStr ''d1''), (''body'', JStr ''again'')]),
      (''{"_id":"","id":"d2"}'',
       JObj [(''_id'', JStr []), (''id'', JStr ''d2'')]),
      (''{"title":"no id"}'',
       JObj [(''title'', JStr ''no id'')]),
      (''{"_id":"d1","text":5}'',
       JObj [(''_id'', JStr ''d1''), (''text'', JInt 5)]),
      (''{"_id":"d1","text":"","contents":"abc"}'',
       JObj [(''_id'', JStr ''d1''), (''text'', JStr []), (''contents'', JStr ''abc'')])]\<close>

definition toy_loads :: "string \<Rightarrow> string + json" where
  "toy_loads s = (case map_of toy_json s of Some v \<Rightarrow> Inr v | None \<Rightarrow> Inl ''Expecting value'')"

text \<open>A text line: the text and the line feed that ends it; \<open>tsv\<close> joins fields with tabs.\<close>

definition ln :: "string \<Rightarrow> string" where
  "ln s = s @ [CHR 0x0A]"

fun tsv :: "string list \<Rightarrow> string" where
  "tsv [] = []"
| "tsv [f] = f"
| "tsv (f # g # fs) = f @ CHR 0x09 # tsv (g # fs)"

definition toy_files :: "(path \<times> string list) list" where
  \<open>toy_files =
     [([''toy'', ''corpus.jsonl''], [ln ''{"_id":"d1","title":"T","text":"hello world"}'']),
      ([''toy'', ''queries.jsonl''], [ln ''{"_id":"q1","text":"hi"}'']),
      ([''toy'', ''qrels'', ''test.tsv''], [ln (tsv [''q1'', ''d1'', ''1''])]),
      ([''num'', ''corpus.jsonl''], [ln ''{"_id":"d1","text":5}'']),
      ([''num'', ''queries.jsonl''], [ln ''{"_id":"q1","text":"hi"}'']),
      ([''num'', ''qrels'', ''test.tsv''], [ln (tsv [''q1'', ''d1'', ''1''])]),
      ([''dup.jsonl''],
       [ln ''{"_id":"d1","title":"T","text":"hello world"}'', ln '' '',
        ln ''{"title":"T2","id":"d1","body":"again"}'']),
      ([''falsy.jsonl''],
       [ln ''{"_id":"d1","title":"T","text":"hello world"}'', ln ''{"_id":"","id":"d2"}'']),
      ([''noid.jsonl''], [ln [], ln ''{"title":"no id"}'']),
      ([''scores.tsv''],
       [ln (tsv [''q1'', ''d1'', ''2.0'']), ln [], ln (tsv [''q1'', ''d2'', ''3.7'']),
        ln (tsv [''q2'', ''d1'', ''abc''])]),
      ([''short.tsv''], [ln (tsv [''q1'', ''d1'', ''1'']), ln (tsv [''q1'', ''d2''])])]\<close>

text \<open>
  What \<^verbatim>\<open>csv.reader(f, delimiter="\t")\<close> yields for lines without quote characters: the
  fields between the tabs of each line, and no field for an empty line.
\<close>

fun split_tabs :: "string \<Rightarrow> string \<Rightarrow> string list" where
  "split_tabs field [] = [rev field]"
| "split_tabs field (c # cs) =
     (if c = CHR 0x09 then rev field # split_tabs [] cs else split_tabs (c # field) cs)"

definition toy_reader :: "string list \<Rightarrow> (error + string list) list" where
  "toy_reader lines =
     map (\<lambda>l. let t = takeWhile (\<lambda>c. c \<noteq> CHR 0x0A) l
              in Inr (if t = [] then [] else split_tabs [] t))
       lines"

definition toy :: env where
  "toy = \<lparr>json_loads = toy_loads, repr = (\<lambda>v. ''?''), files = map_of toy_files,
          csv_reader = toy_reader\<rparr>"

section \<open>Dictionaries\<close>

lemma dict_update_Cons:
  "dict_update d ((k, v) # xs) = dict_update (AList.update k v d) xs"
  by (simp add: dict_update_def)

lemma map_of_dict_update:
  "map_of (dict_update d obj) = map_of d ++ map_of (rev obj)"
proof (induction obj arbitrary: d)
  case Nil
  then show ?case by (simp add: dict_update_def)
next
  case (Cons x xs)
  obtain k v where x: "x = (k, v)" by (cases x)
  have "map_of (dict_update d (x # xs)) = (map_of d)(k \<mapsto> v) ++ map_of (rev xs)"
    unfolding x dict_update_Cons Cons.IH update_conv' ..
  also have "\<dots> = map_of d ++ map_of (rev (x # xs))"
    unfolding x by (rule ext) (simp add: map_add_def split: option.splits)
  finally show ?case .
qed

lemma map_of_rev_distinct:
  "distinct (map fst xs) \<Longrightarrow> map_of (rev xs) = map_of xs"
  by (rule map_of_inject_set[THEN iffD2]) (simp_all add: rev_map[symmetric])

lemma keys_dict_update:
  "fst ` set (dict_update d obj) = fst ` set d \<union> fst ` set obj"
proof (induction obj arbitrary: d)
  case Nil
  then show ?case by (simp add: dict_update_def)
next
  case (Cons x xs)
  obtain k v where x: "x = (k, v)" by (cases x)
  show ?case
    unfolding x dict_update_Cons Cons.IH dom_update by auto
qed

lemma distinct_dict_update:
  "distinct (map fst d) \<Longrightarrow> distinct (map fst (dict_update d obj))"
proof (induction obj arbitrary: d)
  case Nil
  then show ?case by (simp add: dict_update_def)
next
  case (Cons x xs)
  obtain k v where x: "x = (k, v)" by (cases x)
  show ?case
    unfolding x dict_update_Cons using Cons.prems by (intro Cons.IH distinct_update)
qed

lemma text_view_aux:
  "map_of (fold (\<lambda>k d. AList.update k (f k) d) ks d0) k =
     (if k \<in> set ks then Some (f k) else map_of d0 k)"
  by (induction ks arbitrary: d0) (auto simp: update_conv')

lemma map_of_text_view:
  "map_of (text_view tks obj) k =
     (if k \<in> set tks \<and> k \<in> fst ` set obj then map_of obj k else None)"
proof -
  have "map_of (text_view tks obj) k =
          (if k \<in> set tks \<and> k \<in> fst ` set obj then Some (dict_get obj k JNull) else None)"
    unfolding text_view_def text_view_aux by simp
  moreover have "Some (dict_get obj k JNull) = map_of obj k" if "k \<in> fst ` set obj"
    using that by (cases "map_of obj k") (auto simp: dict_get_def map_of_eq_None_iff)
  ultimately show ?thesis by simp
qed

lemma distinct_text_view: "distinct (map fst (text_view tks obj))"
proof -
  have "distinct (map fst d0) \<Longrightarrow>
        distinct (map fst (fold (\<lambda>k d. AList.update k (dict_get obj k JNull) d) ks d0))" for ks d0
    by (induction ks arbitrary: d0) (simp_all add: distinct_update)
  then show ?thesis by (simp add: text_view_def)
qed

lemma keys_text_view:
  "fst ` set (text_view tks obj) = set tks \<inter> fst ` set obj"
proof -
  have "k \<in> dom (map_of (text_view tks obj)) \<longleftrightarrow> k \<in> set tks \<inter> fst ` set obj" for k
    unfolding domIff map_of_text_view using map_of_eq_None_iff [of obj k] by auto
  then have "dom (map_of (text_view tks obj)) = set tks \<inter> fst ` set obj"
    by blast
  then show ?thesis by (simp add: dom_map_of_conv_image_fst)
qed

lemma map_of_make_record:
  assumes "distinct (map fst obj)"
  shows "map_of (make_record tks obj) = map_of obj"
proof (rule ext)
  fix k
  show "map_of (make_record tks obj) k = map_of obj k"
    unfolding make_record_def map_of_dict_update map_of_rev_distinct [OF assms]
    by (simp add: map_add_def map_of_text_view split: option.splits)
qed

lemma keys_make_record:
  "fst ` set (make_record tks obj) = fst ` set obj"
  unfolding make_record_def keys_dict_update keys_text_view by auto

lemma distinct_make_record: "distinct (map fst (make_record tks obj))"
  unfolding make_record_def by (rule distinct_dict_update) (rule distinct_text_view)

section \<open>Properties of the JSONL record loader\<close>

lemma find_id_obj: "\<exists>v. find_id (JObj kvs) ids = Inr v"
proof (induction ids)
  case Nil
  then show ?case by simp
next
  case (Cons k ks)
  show ?case
  proof (cases "k \<in> fst ` set kvs")
    case True
    then obtain v where "map_of kvs k = Some v"
      using map_of_eq_None_iff [of kvs k] by auto
    with True show ?thesis by simp
  next
    case False
    with Cons show ?thesis by simp
  qed
qed

lemma find_id_true_obj:
  "find_id obj ids = Inr d \<Longrightarrow> truthy d \<Longrightarrow> \<exists>kvs. obj = JObj kvs"
proof (induction ids)
  case Nil
  then show ?case by simp
next
  case (Cons k ks)
  then show ?case
    by (cases obj) (auto split: if_splits bool.splits)
qed

lemma load_line_cases:
  "load_line rt p ids tks i l =
     (if strip l = [] then Inr None
      else case json_loads rt (strip l) of
        Inl e \<Rightarrow> Inl (ValueError (InvalidJSON i p e))
      | Inr obj \<Rightarrow>
          (case find_id obj ids of
             Inl e \<Rightarrow> Inl e
           | Inr d \<Rightarrow>
               if truthy d
               then Inr (Some (py_str rt d, make_record tks (case obj of JObj kvs \<Rightarrow> kvs | _ \<Rightarrow> [])))
               else Inl (ValueError (NoIdFound i p obj))))"
proof -
  have "(case obj of JObj kvs \<Rightarrow> Inr (Some (py_str rt d, make_record tks kvs)) | _ \<Rightarrow> Inl TypeError)
        = Inr (Some (py_str rt d, make_record tks (case obj of JObj kvs \<Rightarrow> kvs | _ \<Rightarrow> [])))"
    if "find_id obj ids = Inr d" "truthy d" for obj d
    using find_id_true_obj [OF that] by auto
  then show ?thesis
    by (auto simp: load_line_def Let_def split: sum.splits)
qed

lemma load_line_Inl_iff:
  "(\<exists>e. load_line rt p ids tks i l = Inl e) \<longleftrightarrow> line_fails rt ids l"
  unfolding load_line_cases line_fails_def by (auto split: sum.splits)

lemma load_line_Inl_shift:
  "load_line rt p ids tks i l = Inl e \<Longrightarrow> \<exists>e'. load_line rt p ids tks j l = Inl e'"
  using load_line_Inl_iff by blast

lemma load_lines_Inr_iff:
  "(\<exists>r. load_lines rt p ids tks i ls items = Inr r) \<longleftrightarrow> (\<forall>l\<in>set ls. \<not> line_fails rt ids l)"
proof (induction ls arbitrary: i items)
  case Nil
  then show ?case by simp
next
  case (Cons l ls)
  show ?case
  proof (cases "load_line rt p ids tks i l")
    case (Inl e)
    then have "line_fails rt ids l" using load_line_Inl_iff by blast
    with Inl show ?thesis by simp
  next
    case (Inr r)
    then have "\<not> line_fails rt ids l" using load_line_Inl_iff [of rt p ids tks i l] by auto
    with Inr Cons.IH show ?thesis by (cases r) auto
  qed
qed

lemma load_lines_first_failure:
  assumes "\<forall>l\<in>set pre. \<not> line_fails rt ids l"
    and "load_line rt p ids tks (i + length pre) l = Inl e"
  shows "load_lines rt p ids tks i (pre @ l # post) items = Inl e"
  using assms
proof (induction pre arbitrary: i items)
  case Nil
  then show ?case by simp
next
  case (Cons a pre)
  from Cons.prems have "\<not> line_fails rt ids a" by simp
  then obtain r where r: "load_line rt p ids tks i a = Inr r"
    using load_line_Inl_iff [of rt p ids tks i a] by (cases "load_line rt p ids tks i a") auto
  have "load_lines rt p ids tks (Suc i) (pre @ l # post) items' = Inl e" for items'
    using Cons.prems by (intro Cons.IH) simp_all
  with r show ?case by (cases r) auto
qed

lemma load_lines_entries:
  "load_lines rt p ids tks i ls items = Inr r \<Longrightarrow>
   r = dict_update items (entries rt p ids tks i ls)"
proof (induction ls arbitrary: i items)
  case Nil
  then show ?case by (simp add: dict_update_def)
next
  case (Cons l ls)
  then show ?case
    by (auto simp: dict_update_Cons split: sum.splits option.splits)
qed

lemma length_entries:
  "\<forall>l\<in>set ls. \<not> line_fails rt ids l \<Longrightarrow>
   length (entries rt p ids tks i ls) = length (filter (\<lambda>l. strip l \<noteq> []) ls)"
proof (induction ls arbitrary: i)
  case Nil
  then show ?case by simp
next
  case (Cons l ls)
  from Cons.prems have nf: "\<not> line_fails rt ids l" by simp
  then obtain r where r: "load_line rt p ids tks i l = Inr r"
    using load_line_Inl_iff [of rt p ids tks i l] by (cases "load_line rt p ids tks i l") auto
  have "r = None \<longleftrightarrow> strip l = []"
    using r unfolding load_line_cases by (auto split: sum.splits if_splits)
  with r Cons show ?case by (cases r) auto
qed

lemma collisions_card:
  "collisions seen ks + card (set seen \<union> set ks) = length ks + card (set seen)"
proof (induction ks arbitrary: seen)
  case Nil
  then show ?case by simp
next
  case (Cons k ks)
  show ?case
  proof (cases "k \<in> set seen")
    case True
    then have "set seen \<union> set (k # ks) = set (k # seen) \<union> set ks" "card (set (k # seen)) = card (set seen)"
      by (auto simp: insert_absorb)
    with Cons.IH [of "k # seen"] True show ?thesis by simp
  next
    case False
    then have "set seen \<union> set (k # ks) = set (k # seen) \<union> set ks" "card (set (k # seen)) = Suc (card (set seen))"
      by auto
    with Cons.IH [of "k # seen"] False show ?thesis by simp
  qed
qed

lemma length_distinct_keys:
  "distinct (map fst d) \<Longrightarrow> length d = card (fst ` set d)"
  using distinct_card [of "map fst d"] by simp

lemma find_id_obj_eq:
  "find_id (JObj kvs) ids =
     Inr (case filter (\<lambda>k. k \<in> fst ` set kvs) ids of
            [] \<Rightarrow> JNull
          | k # _ \<Rightarrow> dict_get kvs k JNull)"
proof (induction ids)
  case Nil
  then show ?case by simp
next
  case (Cons k ks)
  show ?case
  proof (cases "k \<in> fst ` set kvs")
    case True
    then obtain v where "map_of kvs k = Some v"
      using map_of_eq_None_iff [of kvs k] by auto
    with True show ?thesis by (simp add: dict_get_def)
  next
    case False
    with Cons show ?thesis by simp
  qed
qed

lemma load_line_Some:
  assumes "load_line rt p ids tks i l = Inr (Some (key, data))"
  shows "\<exists>kvs d. json_loads rt (strip l) = Inr (JObj kvs) \<and> find_id (JObj kvs) ids = Inr d \<and>
           truthy d \<and> key = py_str rt d \<and> data = make_record tks kvs"
proof -
  from assms obtain obj d where o: "json_loads rt (strip l) = Inr obj"
    and d: "find_id obj ids = Inr d" "truthy d"
    and k: "key = py_str rt d"
    and r: "data = make_record tks (case obj of JObj kvs \<Rightarrow> kvs | _ \<Rightarrow> [])"
    unfolding load_line_cases by (auto split: sum.splits if_splits)
  from find_id_true_obj [OF d] obtain kvs where "obj = JObj kvs" ..
  with o d k r show ?thesis by auto
qed

text \<open>
  C7. The Record of a parsed object is the pre-populated text view overlaid with every
  pair of the object. The text view holds exactly the recognized text fields that the
  object has, each with the object's own value; every pair of the object is in the
  Record, and the Record has no field that the object lacks.
\<close>

theorem make_record_overlay:
  assumes "distinct (map fst obj)"
  shows "make_record tks obj = dict_update (text_view tks obj) obj \<and>
         fst ` set (text_view tks obj) = set tks \<inter> fst ` set obj \<and>
         (\<forall>k\<in>fst ` set (text_view tks obj). map_of (text_view tks obj) k = map_of obj k) \<and>
         (\<forall>(k, v)\<in>set obj. map_of (make_record tks obj) k = Some v) \<and>
         fst ` set (make_record tks obj) = fst ` set obj"
proof -
  have "map_of (text_view tks obj) k = map_of obj k" if "k \<in> fst ` set (text_view tks obj)" for k
    using that unfolding keys_text_view by (simp add: map_of_text_view)
  moreover have "map_of (make_record tks obj) k = Some v" if "(k, v) \<in> set obj" for k v
    using that assms by (simp add: map_of_make_record)
  ultimately show ?thesis
    by (auto simp: make_record_def keys_text_view keys_make_record [unfolded make_record_def])
qed

theorem make_record_overlay_witness:
  "distinct (map fst [(''title'', JStr ''T2''), (''id'', JStr ''d1''), (''body'', JStr ''again'')]) \<and>
   text_view text_keys0 [(''title'', JStr ''T2''), (''id'', JStr ''d1''), (''body'', JStr ''again'')]
     = [(''body'', JStr ''again'')] \<and>
   make_record text_keys0 [(''title'', JStr ''T2''), (''id'', JStr ''d1''), (''body'', JStr ''again'')]
     = dict_update [(''body'', JStr ''again'')]
         [(''title'', JStr ''T2''), (''id'', JStr ''d1''), (''body'', JStr ''again'')] \<and>
   make_record text_keys0 [(''title'', JStr ''T2''), (''id'', JStr ''d1''), (''body'', JStr ''again'')]
     = [(''body'', JStr ''again''), (''title'', JStr ''T2''), (''id'', JStr ''d1'')]"
proof -
  have d: "distinct (map fst [(''title'', JStr ''T2''), (''id'', JStr ''d1''), (''body'', JStr ''again'')])"
    by simp
  have v: "text_view text_keys0 [(''title'', JStr ''T2''), (''id'', JStr ''d1''), (''body'', JStr ''again'')]
             = [(''body'', JStr ''again'')]"
    by code_simp
  have r: "dict_update [(''body'', JStr ''again'')]
             [(''title'', JStr ''T2''), (''id'', JStr ''d1''), (''body'', JStr ''again'')]
           = [(''body'', JStr ''again''), (''title'', JStr ''T2''), (''id'', JStr ''d1'')]"
    by code_simp
  from make_record_overlay [OF d, of text_keys0] show ?thesis
    unfolding v r using d by simp
qed

text \<open>
  C9. The Record that a line stores has the keys of the parsed object and maps each to
  the object's value: as a mapping it is the parsed object, whatever the text fields.
\<close>

theorem stored_record_is_object:
  assumes "load_line rt p ids tks i l = Inr (Some (key, data))"
  shows "\<exists>kvs. json_loads rt (strip l) = Inr (JObj kvs) \<and>
           fst ` set data = fst ` set kvs \<and>
           (distinct (map fst kvs) \<longrightarrow> map_of data = map_of kvs \<and> map_of data = map_of (make_record [] kvs))"
proof -
  from load_line_Some [OF assms] obtain kvs
    where "json_loads rt (strip l) = Inr (JObj kvs)" "data = make_record tks kvs"
    by blast
  then show ?thesis
    by (auto simp: keys_make_record map_of_make_record)
qed

theorem stored_record_is_object_witness:
  "load_line toy [''dup.jsonl''] id_keys0 text_keys0 3 (ln ''{\"title\":\"T2\",\"id\":\"d1\",\"body\":\"again\"}'')
     = Inr (Some (''d1'', [(''body'', JStr ''again''), (''title'', JStr ''T2''), (''id'', JStr ''d1'')])) \<and>
   map_of [(''body'', JStr ''again''), (''title'', JStr ''T2''), (''id'', JStr ''d1'')]
     = map_of [(''title'', JStr ''T2''), (''id'', JStr ''d1''), (''body'', JStr ''again'')]"
proof -
  have l: "load_line toy [''dup.jsonl''] id_keys0 text_keys0 3 (ln ''{\"title\":\"T2\",\"id\":\"d1\",\"body\":\"again\"}'')
     = Inr (Some (''d1'', [(''body'', JStr ''again''), (''title'', JStr ''T2''), (''id'', JStr ''d1'')]))"
    by code_simp
  have j: "json_loads toy (strip (ln ''{\"title\":\"T2\",\"id\":\"d1\",\"body\":\"again\"}''))
     = Inr (JObj [(''title'', JStr ''T2''), (''id'', JStr ''d1''), (''body'', JStr ''again'')])"
    by code_simp
  from stored_record_is_object [OF l] j show ?thesis
    using l by auto
qed

lemma load_jsonl_lines:
  "files rt p = Some lines \<Longrightarrow> load_jsonl rt p ids tks = load_lines rt p ids tks 1 lines []"
  by (simp add: load_jsonl_def)

text \<open>
  C6. When the load succeeds, every non-blank line makes one assignment
  \<^verbatim>\<open>items[key] = data\<close>; the mapping returned has as many entries as there are non-blank
  lines, less the collisions among the keys; the key of a line is \<^verbatim>\<open>str\<close> of the identifier
  found in it; and a key maps to the Record of the last line that has it.
\<close>

theorem load_jsonl_size_and_last_write:
  assumes "files rt p = Some lines"
    and "load_jsonl rt p ids tks = Inr items"
  shows "length (entries rt p ids tks 1 lines) = length (filter (\<lambda>l. strip l \<noteq> []) lines) \<and>
         length items =
           length (filter (\<lambda>l. strip l \<noteq> []) lines) - collisions [] (map fst (entries rt p ids tks 1 lines)) \<and>
         distinct (map fst items) \<and>
         map_of items = map_of (rev (entries rt p ids tks 1 lines)) \<and>
         (\<forall>i l key data. load_line rt p ids tks i l = Inr (Some (key, data)) \<longrightarrow>
            (\<exists>obj d. json_loads rt (strip l) = Inr obj \<and> find_id obj ids = Inr d \<and> key = py_str rt d))"
proof -
  let ?es = "entries rt p ids tks 1 lines"
  from assms have ok: "load_lines rt p ids tks 1 lines [] = Inr items"
    by (simp add: load_jsonl_lines)
  then have items: "items = dict_update [] ?es"
    by (rule load_lines_entries)
  from ok have nf: "\<forall>l\<in>set lines. \<not> line_fails rt ids l"
    using load_lines_Inr_iff [of rt p ids tks 1 lines "[]"] by blast
  then have len: "length ?es = length (filter (\<lambda>l. strip l \<noteq> []) lines)"
    by (rule length_entries)
  have dist: "distinct (map fst items)"
    unfolding items by (rule distinct_dict_update) simp
  have keys: "fst ` set items = set (map fst ?es)"
    unfolding items keys_dict_update by simp
  have "length items = card (set (map fst ?es))"
    using length_distinct_keys [OF dist] keys by simp
  moreover have "collisions [] (map fst ?es) + card (set (map fst ?es)) = length ?es"
    using collisions_card [of "[]" "map fst ?es"] by simp
  ultimately have size: "length items = length ?es - collisions [] (map fst ?es)"
    by simp
  have last: "map_of items = map_of (rev ?es)"
    unfolding items map_of_dict_update by simp
  have key: "\<exists>obj d. json_loads rt (strip l) = Inr obj \<and> find_id obj ids = Inr d \<and> key = py_str rt d"
    if "load_line rt p ids tks i l = Inr (Some (key, data))" for i l key data
    using load_line_Some [OF that] by blast
  from len size dist last key show ?thesis
    by (simp only: len) blast
qed

theorem load_jsonl_size_and_last_write_witness:
  "files toy [''dup.jsonl''] =
     Some [ln ''{\"_id\":\"d1\",\"title\":\"T\",\"text\":\"hello world\"}'', ln '' '',
           ln ''{\"title\":\"T2\",\"id\":\"d1\",\"body\":\"again\"}''] \<and>
   load_jsonl toy [''dup.jsonl''] id_keys0 text_keys0 =
     Inr [(''d1'', [(''body'', JStr ''again''), (''title'', JStr ''T2''), (''id'', JStr ''d1'')])] \<and>
   collisions [] (map fst (entries toy [''dup.jsonl''] id_keys0 text_keys0 1
     [ln ''{\"_id\":\"d1\",\"title\":\"T\",\"text\":\"hello world\"}'', ln '' '',
      ln ''{\"title\":\"T2\",\"id\":\"d1\",\"body\":\"again\"}''])) = 1 \<and>
   length [(''d1'', [(''body'', JStr ''again''), (''title'', JStr ''T2''), (''id'', JStr ''d1'')])] = 2 - (1::nat)"
proof -
  have f: "files toy [''dup.jsonl''] =
     Some [ln ''{\"_id\":\"d1\",\"title\":\"T\",\"text\":\"hello world\"}'', ln '' '',
           ln ''{\"title\":\"T2\",\"id\":\"d1\",\"body\":\"again\"}'']"
    by code_simp
  have l: "load_jsonl toy [''dup.jsonl''] id_keys0 text_keys0 =
     Inr [(''d1'', [(''body'', JStr ''again''), (''title'', JStr ''T2''), (''id'', JStr ''d1'')])]"
    by code_simp
  have c: "collisions [] (map fst (entries toy [''dup.jsonl''] id_keys0 text_keys0 1
     [ln ''{\"_id\":\"d1\",\"title\":\"T\",\"text\":\"hello world\"}'', ln '' '',
      ln ''{\"title\":\"T2\",\"id\":\"d1\",\"body\":\"again\"}''])) = 1"
    by code_simp
  from load_jsonl_size_and_last_write [OF f l] show ?thesis
    using f l c by simp
qed
lemma line_fails_obj:
  assumes "json_loads rt (strip l) = Inr (JObj kvs)"
  shows "line_fails rt ids l \<longleftrightarrow>
           strip l \<noteq> [] \<and>
           (case filter (\<lambda>k. k \<in> fst ` set kvs) ids of
              [] \<Rightarrow> True
            | k # _ \<Rightarrow> \<not> truthy (dict_get kvs k JNull))"
  apply (simp add: line_fails_def assms)
  apply (subst find_id_obj_eq)
  apply (simp split: list.splits)
  done

lemma load_line_error_obj:
  assumes "json_loads rt (strip l) = Inr (JObj kvs)" and "line_fails rt ids l"
  shows "load_line rt p ids tks i l = Inl (ValueError (NoIdFound i p (JObj kvs)))"
proof -
  from assms obtain d where "find_id (JObj kvs) ids = Inr d" "\<not> truthy d"
    using find_id_obj [of kvs ids] by (auto simp: line_fails_def)
  with assms show ?thesis
    by (simp add: load_line_cases line_fails_def)
qed

lemma load_line_error_json:
  assumes "json_loads rt (strip l) = Inl e" and "strip l \<noteq> []"
  shows "load_line rt p ids tks i l = Inl (ValueError (InvalidJSON i p e))"
  using assms unfolding load_line_cases by simp

text \<open>
  C1, as the code has it. \<^verbatim>\<open>load_jsonl\<close> raises exactly when some non-blank line is not
  valid JSON or the identifier lookup on its parsed value gives no true identifier. For
  a JSON object that is: none of the identifier fields is present, or the first one
  present holds a false value. The exception comes from the first such line: a
  \<^verbatim>\<open>ValueError\<close> with the 1-based number of the line and the path, for invalid JSON and
  for a JSON object alike.
\<close>

theorem load_jsonl_raises_iff:
  assumes "files rt p = Some lines"
  shows "((\<exists>e. load_jsonl rt p ids tks = Inl e) \<longleftrightarrow> (\<exists>l\<in>set lines. line_fails rt ids l)) \<and>
         (\<forall>l kvs. json_loads rt (strip l) = Inr (JObj kvs) \<longrightarrow>
            (line_fails rt ids l \<longleftrightarrow>
               strip l \<noteq> [] \<and>
               (case filter (\<lambda>k. k \<in> fst ` set kvs) ids of
                  [] \<Rightarrow> True
                | k # _ \<Rightarrow> \<not> truthy (dict_get kvs k JNull)))) \<and>
         (\<forall>pre l post. lines = pre @ l # post \<and> (\<forall>a\<in>set pre. \<not> line_fails rt ids a) \<and>
              line_fails rt ids l \<longrightarrow>
            (\<forall>e. json_loads rt (strip l) = Inl e \<longrightarrow>
               load_jsonl rt p ids tks = Inl (ValueError (InvalidJSON (Suc (length pre)) p e))) \<and>
            (\<forall>kvs. json_loads rt (strip l) = Inr (JObj kvs) \<longrightarrow>
               load_jsonl rt p ids tks = Inl (ValueError (NoIdFound (Suc (length pre)) p (JObj kvs)))))"
proof -
  have eq: "load_jsonl rt p ids tks = load_lines rt p ids tks 1 lines []"
    using assms by (rule load_jsonl_lines)
  have "(\<exists>e. load_lines rt p ids tks 1 lines [] = Inl e) \<longleftrightarrow> (\<exists>l\<in>set lines. line_fails rt ids l)"
    using load_lines_Inr_iff [of rt p ids tks 1 lines "[]"]
    by (cases "load_lines rt p ids tks 1 lines []") auto
  then have part1: "(\<exists>e. load_jsonl rt p ids tks = Inl e) \<longleftrightarrow> (\<exists>l\<in>set lines. line_fails rt ids l)"
    by (simp only: eq)
  have part3a: "load_jsonl rt p ids tks = Inl (ValueError (InvalidJSON (Suc (length pre)) p e))"
    if "lines = pre @ l # post" "\<forall>a\<in>set pre. \<not> line_fails rt ids a" "line_fails rt ids l"
      "json_loads rt (strip l) = Inl e" for pre l post e
  proof -
    from that(3) have "strip l \<noteq> []" by (simp add: line_fails_def)
    with that(4) have "load_line rt p ids tks (1 + length pre) l = Inl (ValueError (InvalidJSON (Suc (length pre)) p e))"
      by (simp add: load_line_error_json)
    from load_lines_first_failure [OF that(2) this] show ?thesis
      unfolding eq that(1) .
  qed
  have part3b: "load_jsonl rt p ids tks = Inl (ValueError (NoIdFound (Suc (length pre)) p (JObj kvs)))"
    if "lines = pre @ l # post" "\<forall>a\<in>set pre. \<not> line_fails rt ids a" "line_fails rt ids l"
      "json_loads rt (strip l) = Inr (JObj kvs)" for pre l post kvs
  proof -
    from that(4,3) have "load_line rt p ids tks (1 + length pre) l = Inl (ValueError (NoIdFound (Suc (length pre)) p (JObj kvs)))"
      by (simp add: load_line_error_obj)
    from load_lines_first_failure [OF that(2) this] show ?thesis
      unfolding eq that(1) .
  qed
  show ?thesis
    using part1 line_fails_obj [of rt _ _ ids] part3a part3b by (intro conjI allI impI) blast+
qed

theorem load_jsonl_raises_iff_witness:
  "files toy [''noid.jsonl''] = Some [ln [], ln ''{\"title\":\"no id\"}''] \<and>
   line_fails toy id_keys0 (ln ''{\"title\":\"no id\"}'') \<and>
   \<not> line_fails toy id_keys0 (ln []) \<and>
   load_jsonl toy [''noid.jsonl''] id_keys0 text_keys0 =
     Inl (ValueError (NoIdFound 2 [''noid.jsonl''] (JObj [(''title'', JStr ''no id'')])))"
proof -
  have f: "files toy [''noid.jsonl''] = Some ([ln []] @ ln ''{\"title\":\"no id\"}'' # [])"
    by code_simp
  have a: "line_fails toy id_keys0 (ln ''{\"title\":\"no id\"}'')"
    by code_simp
  have b: "\<not> line_fails toy id_keys0 (ln [])"
    by code_simp
  have j: "json_loads toy (strip (ln ''{\"title\":\"no id\"}'')) = Inr (JObj [(''title'', JStr ''no id'')])"
    by code_simp
  have c: "[ln []] @ ln ''{\"title\":\"no id\"}'' # [] = [ln []] @ ln ''{\"title\":\"no id\"}'' # [] \<and>
           (\<forall>a\<in>set [ln []]. \<not> line_fails toy id_keys0 a) \<and>
           line_fails toy id_keys0 (ln ''{\"title\":\"no id\"}'')"
    using a b by simp
  have "load_jsonl toy [''noid.jsonl''] id_keys0 text_keys0 =
     Inl (ValueError (NoIdFound (Suc (length [ln []])) [''noid.jsonl''] (JObj [(''title'', JStr ''no id'')])))"
    by (rule load_jsonl_raises_iff [OF f, of id_keys0 text_keys0, THEN conjunct2, THEN conjunct2,
          rule_format, THEN conjunct2, rule_format, OF c j])
  then show ?thesis
    using f a b by simp
qed

text \<open>
  The claim C1 as the spec states it fails: the second line of this file is valid JSON
  and its object has the identifier field \<^verbatim>\<open>_id\<close>, yet the load raises, since the value
  of the field is the empty string.
\<close>

theorem load_jsonl_raises_iff_counterexample:
  "files toy [''falsy.jsonl''] =
     Some [ln ''{\"_id\":\"d1\",\"title\":\"T\",\"text\":\"hello world\"}'', ln ''{\"_id\":\"\",\"id\":\"d2\"}''] \<and>
   json_loads toy (strip (ln ''{\"_id\":\"d1\",\"title\":\"T\",\"text\":\"hello world\"}'')) =
     Inr (JObj [(''_id'', JStr ''d1''), (''title'', JStr ''T''), (''text'', JStr ''hello world'')]) \<and>
   json_loads toy (strip (ln ''{\"_id\":\"\",\"id\":\"d2\"}'')) =
     Inr (JObj [(''_id'', JStr []), (''id'', JStr ''d2'')]) \<and>
   load_jsonl toy [''falsy.jsonl''] id_keys0 text_keys0 =
     Inl (ValueError (NoIdFound 2 [''falsy.jsonl''] (JObj [(''_id'', JStr []), (''id'', JStr ''d2'')])))"
  by code_simp

text \<open>
  C10. The identifier of an object is looked up in the first identifier field that the
  object has, and no further. When the value of that field is false (the empty string,
  0, null and false are), the loader raises the \<^verbatim>\<open>ValueError\<close> of a missing identifier for
  that line, whatever the later identifier fields hold.
\<close>

theorem falsy_identifier_rejected:
  assumes "files rt p = Some (pre @ l # post)"
    and "\<forall>a\<in>set pre. \<not> line_fails rt ids a"
    and "strip l \<noteq> []"
    and "json_loads rt (strip l) = Inr (JObj kvs)"
    and "filter (\<lambda>k. k \<in> fst ` set kvs) ids = k # ks"
    and "map_of kvs k = Some v"
    and "\<not> truthy v"
  shows "find_id (JObj kvs) ids = Inr v \<and>
         load_jsonl rt p ids tks = Inl (ValueError (NoIdFound (Suc (length pre)) p (JObj kvs))) \<and>
         \<not> truthy (JStr []) \<and> \<not> truthy (JInt 0) \<and> \<not> truthy JNull \<and> \<not> truthy (JBool False)"
proof -
  have v: "dict_get kvs k JNull = v"
    using assms(6) by (simp add: dict_get_def)
  have id: "find_id (JObj kvs) ids = Inr v"
    by (subst find_id_obj_eq) (simp add: assms(5) v)
  have "line_fails rt ids l"
    unfolding line_fails_obj [OF assms(4)] assms(5) using assms(3,7) v by simp
  with assms(4) have "load_line rt p ids tks (1 + length pre) l = Inl (ValueError (NoIdFound (Suc (length pre)) p (JObj kvs)))"
    by (simp add: load_line_error_obj)
  from load_lines_first_failure [OF assms(2) this]
  have "load_jsonl rt p ids tks = Inl (ValueError (NoIdFound (Suc (length pre)) p (JObj kvs)))"
    unfolding load_jsonl_lines [OF assms(1)] .
  with id show ?thesis by simp
qed

theorem falsy_identifier_rejected_witness:
  "files toy [''falsy.jsonl''] =
     Some ([ln ''{\"_id\":\"d1\",\"title\":\"T\",\"text\":\"hello world\"}''] @ ln ''{\"_id\":\"\",\"id\":\"d2\"}'' # []) \<and>
   json_loads toy (strip (ln ''{\"_id\":\"\",\"id\":\"d2\"}'')) = Inr (JObj [(''_id'', JStr []), (''id'', JStr ''d2'')]) \<and>
   filter (\<lambda>k. k \<in> fst ` set [(''_id'', JStr []), (''id'', JStr ''d2'')]) id_keys0 = [''_id'', ''id''] \<and>
   truthy (JStr ''d2'') \<and>
   load_jsonl toy [''falsy.jsonl''] id_keys0 text_keys0 =
     Inl (ValueError (NoIdFound 2 [''falsy.jsonl''] (JObj [(''_id'', JStr []), (''id'', JStr ''d2'')])))"
proof -
  have f: "files toy [''falsy.jsonl''] =
     Some ([ln ''{\"_id\":\"d1\",\"title\":\"T\",\"text\":\"hello world\"}''] @ ln ''{\"_id\":\"\",\"id\":\"d2\"}'' # [])"
    by code_simp
  have a: "\<forall>a\<in>set [ln ''{\"_id\":\"d1\",\"title\":\"T\",\"text\":\"hello world\"}'']. \<not> line_fails toy id_keys0 a"
    by code_simp
  have s: "strip (ln ''{\"_id\":\"\",\"id\":\"d2\"}'') \<noteq> []"
    by code_simp
  have j: "json_loads toy (strip (ln ''{\"_id\":\"\",\"id\":\"d2\"}'')) = Inr (JObj [(''_id'', JStr []), (''id'', JStr ''d2'')])"
    by code_simp
  have k: "filter (\<lambda>k. k \<in> fst ` set [(''_id'', JStr []), (''id'', JStr ''d2'')]) id_keys0 = ''_id'' # [''id'']"
    by code_simp
  have m: "map_of [(''_id'', JStr []), (''id'', JStr ''d2'')] ''_id'' = Some (JStr [])"
    by simp
  have t: "\<not> truthy (JStr [])"
    by simp
  from falsy_identifier_rejected [OF f a s j k m t, of text_keys0] show ?thesis
    using f j k by simp
qed

section \<open>Properties of the relevance table loader\<close>


















section \<open>Properties of the consistency check and of the report\<close>

lemma missing_docs_inner:
  "fold (\<lambda>d acc. if d \<notin> C then insert d acc else acc) ds acc = acc \<union> (set ds - C)"
proof (induction ds arbitrary: acc)
  case Nil
  then show ?case by simp
next
  case (Cons d ds)
  show ?case
  proof (cases "d \<in> C")
    case True
    then have "fold (\<lambda>d acc. if d \<notin> C then insert d acc else acc) (d # ds) acc = acc \<union> (set ds - C)"
      by (simp add: Cons.IH)
    also have "\<dots> = acc \<union> (set (d # ds) - C)"
      using True by auto
    finally show ?thesis .
  next
    case False
    then have "fold (\<lambda>d acc. if d \<notin> C then insert d acc else acc) (d # ds) acc = insert d acc \<union> (set ds - C)"
      by (simp add: Cons.IH)
    also have "\<dots> = acc \<union> (set (d # ds) - C)"
      using False by auto
    finally show ?thesis .
  qed
qed

lemma union_fold:
  "fold (\<lambda>(q, docs) acc. acc \<union> (fst ` set docs - C)) qrels acc =
     acc \<union> ((\<Union>(q, docs)\<in>set qrels. fst ` set docs) - C)"
proof (induction qrels arbitrary: acc)
  case Nil
  then show ?case by simp
next
  case (Cons x qrels)
  obtain q docs where x: "x = (q, docs)" by (cases x)
  have "fold (\<lambda>(q, docs) acc. acc \<union> (fst ` set docs - C)) (x # qrels) acc
        = (acc \<union> (fst ` set docs - C)) \<union> ((\<Union>(q, docs)\<in>set qrels. fst ` set docs) - C)"
    unfolding x by (simp add: Cons.IH)
  also have "\<dots> = acc \<union> ((\<Union>(q, docs)\<in>set (x # qrels). fst ` set docs) - C)"
    unfolding x by auto
  finally show ?case .
qed

lemma missing_docs_outer:
  "fold (\<lambda>(q, docs) acc. fold (\<lambda>d acc. if d \<notin> C then insert d acc else acc) (map fst docs) acc) qrels acc =
     acc \<union> ((\<Union>(q, docs)\<in>set qrels. fst ` set docs) - C)"
  unfolding missing_docs_inner set_map by (rule union_fold)

text \<open>
  C4. The check of the references: \<open>missing_queries\<close> lists, in the order of the keys of
  the relevance table, the query ids of the table that the queries mapping lacks;
  \<open>missing_docs\<close> is the set of the document ids under any query of the table that the
  corpus lacks. Both are total functions of the three mappings. On the table
  \<^verbatim>\<open>{"q1": {"d1": 1}}\<close> with an empty corpus and a query \<^verbatim>\<open>q1\<close> they are \<^verbatim>\<open>{"d1"}\<close> and
  the empty list.
\<close>

theorem missing_references:
  "missing_queries qrels queries = filter (\<lambda>q. q \<notin> fst ` set queries) (map fst qrels) \<and>
   set (missing_queries qrels queries) = fst ` set qrels - fst ` set queries \<and>
   missing_docs qrels corpus = {d. \<exists>q docs. (q, docs) \<in> set qrels \<and> d \<in> fst ` set docs} - fst ` set corpus \<and>
   missing_docs [(''q1'', [(''d1'', 1)])] [] = {''d1''} \<and>
   missing_queries [(''q1'', [(''d1'', 1)])] [(''q1'', r)] = []"
proof -
  have "missing_docs qrels corpus = (\<Union>(q, docs)\<in>set qrels. fst ` set docs) - fst ` set corpus"
    unfolding missing_docs_def using missing_docs_outer [of "fst ` set corpus" qrels "{}"] by simp
  also have "(\<Union>(q, docs)\<in>set qrels. fst ` set docs) = {d. \<exists>q docs. (q, docs) \<in> set qrels \<and> d \<in> fst ` set docs}"
    by auto
  finally have md: "missing_docs qrels corpus =
      {d. \<exists>q docs. (q, docs) \<in> set qrels \<and> d \<in> fst ` set docs} - fst ` set corpus" .
  have mq: "set (missing_queries qrels queries) = fst ` set qrels - fst ` set queries"
    by (auto simp: missing_queries_def)
  have d: "missing_queries qrels queries = filter (\<lambda>q. q \<notin> fst ` set queries) (map fst qrels)"
    by (simp add: missing_queries_def)
  have e1: "missing_docs [(''q1'', [(''d1'', 1)])] [] = {''d1''}"
    by (simp add: missing_docs_def)
  have e2: "missing_queries [(''q1'', [(''d1'', 1)])] [(''q1'', r)] = []"
    by (simp add: missing_queries_def)
  from d mq md e1 e2 show ?thesis
    by (intro conjI)
qed

theorem missing_references_witness:
  "missing_queries [(''q1'', [(''d1'', 1), (''d9'', 0)]), (''q7'', [(''d1'', 2)])] [(''q1'', [])] = [''q7''] \<and>
   missing_docs [(''q1'', [(''d1'', 1), (''d9'', 0)]), (''q7'', [(''d1'', 2)])] [(''d1'', [])] = {''d9''}"
proof -
  have "missing_queries [(''q1'', [(''d1'', 1), (''d9'', 0)]), (''q7'', [(''d1'', 2)])] [(''q1'', [])]
        = filter (\<lambda>q. q \<notin> fst ` set [(''q1'', [] :: jrecord)])
            (map fst [(''q1'', [(''d1'', 1), (''d9'', 0)]), (''q7'', [(''d1'', 2::int)])])"
    by (rule missing_references [THEN conjunct1])
  then have q: "missing_queries [(''q1'', [(''d1'', 1), (''d9'', 0)]), (''q7'', [(''d1'', 2)])] [(''q1'', [])] = [''q7'']"
    by simp
  have d: "missing_docs [(''q1'', [(''d1'', 1), (''d9'', 0)]), (''q7'', [(''d1'', 2)])] [(''d1'', [])] = {''d9''}"
    by (simp add: missing_docs_def)
  from q d show ?thesis
    by (intro conjI)
qed

lemma doc_text_first_true:
  "doc_text doc = first_true_text [''text'', ''contents'', ''body'', ''passage''] doc"
  by (simp add: doc_text_def first_true_text_def py_or_def)

lemma sample_keys_one:
  assumes "d \<noteq> []"
  shows "sample_keys rnd d 1 = ([map fst d ! (rnd 0 mod length d)], \<lambda>i. rnd (Suc i))"
proof -
  have "min 1 (length d) = Suc 0"
    using assms by (cases d) simp_all
  then show ?thesis
    using assms by (simp add: sample_keys_def Let_def)
qed

text \<open>
  The claim C8 as the spec states it fails: in this document the first text field
  present is \<^verbatim>\<open>text\<close>, with the empty string as its value, and the report prints the
  value of \<^verbatim>\<open>contents\<close>.
\<close>

theorem sample_doc_report_counterexample:
  "load_line toy [''corpus.jsonl''] id_keys0 text_keys0 1 (ln ''{\"_id\":\"d1\",\"text\":\"\",\"contents\":\"abc\"}'') =
     Inr (Some (''d1'', [(''text'', JStr []), (''contents'', JStr ''abc''), (''_id'', JStr ''d1'')])) \<and>
   spec_primary_text [''text'', ''contents'', ''body'', ''passage'']
     [(''text'', JStr []), (''contents'', JStr ''abc''), (''_id'', JStr ''d1'')] = JStr [] \<and>
   show_doc ''d1'' [(''text'', JStr []), (''contents'', JStr ''abc''), (''_id'', JStr ''d1'')] =
     ([(Stdout, [PStr (CHR 0x0A # ''Sample doc id:''), PStr ''d1'']),
       (Stdout, [PStr ''Fields:'', PKeys [''text'', ''contents'', ''_id'']]),
       (Stdout, [PStr ''Title:'', PVal (JStr [])]),
       (Stdout, [PStr ''Text (first 400 chars):'', PVal (JStr ''abc'')])], None)"
  by code_simp

text \<open>
  C8, as the code has it. For a corpus that is not empty the report samples one
  document id of the corpus. The primary text content of the document is the value of
  the first field among \<^verbatim>\<open>text\<close>, \<^verbatim>\<open>contents\<close>, \<^verbatim>\<open>body\<close>, \<^verbatim>\<open>passage\<close> whose value is true, and
  the empty string when there is none. When it is a string, the report prints, after the
  three sizes, the id, the field names, the title (the empty string when the document
  has no \<^verbatim>\<open>title\<close>) and the first 400 characters of the primary text content.
\<close>

theorem sample_doc_report:
  assumes "corpus \<noteq> []"
  shows "\<exists>docid doc rnd'.
           sample_keys rnd corpus 1 = ([docid], rnd') \<and>
           docid \<in> fst ` set corpus \<and>
           map_of corpus docid = Some doc \<and>
           doc_text doc = first_true_text [''text'', ''contents'', ''body'', ''passage''] doc \<and>
           (\<forall>s. doc_text doc = JStr s \<longrightarrow>
              (\<exists>rest r. report rnd corpus queries qrels =
                 ([(Stdout, [PFmt [PStr ''corpus size: '', PNum (length corpus)]]),
                   (Stdout, [PFmt [PStr ''queries size: '', PNum (length queries)]]),
                   (Stdout, [PFmt [PStr ''qrels size: '', PNum (length qrels)]]),
                   (Stdout, [PStr (CHR 0x0A # ''Sample doc id:''), PStr docid]),
                   (Stdout, [PStr ''Fields:'', PKeys (map fst doc)]),
                   (Stdout, [PStr ''Title:'', PVal (dict_get doc ''title'' (JStr []))]),
                   (Stdout, [PStr ''Text (first 400 chars):'', PVal (JStr (take 400 s))])] @ rest, r)))"
proof -
  define docid where "docid = map fst corpus ! (rnd 0 mod length corpus)"
  have sk: "sample_keys rnd corpus 1 = ([docid], \<lambda>i. rnd (Suc i))"
    unfolding docid_def using assms by (rule sample_keys_one)
  have "rnd 0 mod length corpus < length (map fst corpus)"
    using assms by simp
  then have "docid \<in> set (map fst corpus)"
    unfolding docid_def by (rule nth_mem)
  then have mem: "docid \<in> fst ` set corpus"
    by simp
  then obtain doc where doc: "map_of corpus docid = Some doc"
    using map_of_eq_None_iff [of corpus docid] by auto
  have rep: "\<exists>rest r. report rnd corpus queries qrels =
                 ([(Stdout, [PFmt [PStr ''corpus size: '', PNum (length corpus)]]),
                   (Stdout, [PFmt [PStr ''queries size: '', PNum (length queries)]]),
                   (Stdout, [PFmt [PStr ''qrels size: '', PNum (length qrels)]]),
                   (Stdout, [PStr (CHR 0x0A # ''Sample doc id:''), PStr docid]),
                   (Stdout, [PStr ''Fields:'', PKeys (map fst doc)]),
                   (Stdout, [PStr ''Title:'', PVal (dict_get doc ''title'' (JStr []))]),
                   (Stdout, [PStr ''Text (first 400 chars):'', PVal (JStr (take 400 s))])] @ rest, r)"
    if "doc_text doc = JStr s" for s
  proof -
    have sd: "show_docs corpus [docid] =
                ([(Stdout, [PStr (CHR 0x0A # ''Sample doc id:''), PStr docid]),
                  (Stdout, [PStr ''Fields:'', PKeys (map fst doc)]),
                  (Stdout, [PStr ''Title:'', PVal (dict_get doc ''title'' (JStr []))]),
                  (Stdout, [PStr ''Text (first 400 chars):'', PVal (JStr (take 400 s))])], None)"
      using doc that by (simp add: show_doc_def Let_def)
    obtain qids rnd2 where sq: "sample_keys (\<lambda>i. rnd (Suc i)) queries 1 = (qids, rnd2)"
      by (cases "sample_keys (\<lambda>i. rnd (Suc i)) queries 1")
    obtain o2 r2 where q: "show_queries qrels queries qids = (o2, r2)"
      by (cases "show_queries qrels queries qids")
    show ?thesis
      unfolding report_def Let_def sk sd sq q prod.case option.case
      by (cases r2) auto
  qed
  from sk mem doc rep doc_text_first_true show ?thesis
    by blast
qed

theorem sample_doc_report_witness:
  "[(''d1'', [(''text'', JStr ''hello world''), (''_id'', JStr ''d1''), (''title'', JStr ''T'')])] \<noteq> [] \<and>
   load_jsonl toy [''toy'', ''corpus.jsonl''] id_keys0 text_keys0 =
     Inr [(''d1'', [(''text'', JStr ''hello world''), (''_id'', JStr ''d1''), (''title'', JStr ''T'')])] \<and>
   (\<exists>rest r. report (\<lambda>i. 0)
       [(''d1'', [(''text'', JStr ''hello world''), (''_id'', JStr ''d1''), (''title'', JStr ''T'')])] [] [] =
     ([(Stdout, [PFmt [PStr ''corpus size: '', PNum 1]]),
       (Stdout, [PFmt [PStr ''queries size: '', PNum 0]]),
       (Stdout, [PFmt [PStr ''qrels size: '', PNum 0]]),
       (Stdout, [PStr (CHR 0x0A # ''Sample doc id:''), PStr ''d1'']),
       (Stdout, [PStr ''Fields:'', PKeys [''text'', ''_id'', ''title'']]),
       (Stdout, [PStr ''Title:'', PVal (JStr ''T'')]),
       (Stdout, [PStr ''Text (first 400 chars):'', PVal (JStr ''hello world'')])] @ rest, r))"
proof -
  let ?corpus = "[(''d1'', [(''text'', JStr ''hello world''), (''_id'', JStr ''d1''), (''title'', JStr ''T'')])]"
  have ne: "?corpus \<noteq> []"
    by simp
  have l: "load_jsonl toy [''toy'', ''corpus.jsonl''] id_keys0 text_keys0 = Inr ?corpus"
    by code_simp
  from sample_doc_report [OF ne, of "\<lambda>i. 0" "[]" "[]"]
  obtain docid doc rnd' where
    sk: "sample_keys (\<lambda>i. 0) ?corpus 1 = ([docid], rnd')"
    and doc: "map_of ?corpus docid = Some doc"
    and rep: "\<forall>s. doc_text doc = JStr s \<longrightarrow>
              (\<exists>rest r. report (\<lambda>i. 0) ?corpus [] [] =
                 ([(Stdout, [PFmt [PStr ''corpus size: '', PNum (length ?corpus)]]),
                   (Stdout, [PFmt [PStr ''queries size: '', PNum (length ([] :: (string \<times> jrecord) list))]]),
                   (Stdout, [PFmt [PStr ''qrels size: '', PNum (length ([] :: qrels))]]),
                   (Stdout, [PStr (CHR 0x0A # ''Sample doc id:''), PStr docid]),
                   (Stdout, [PStr ''Fields:'', PKeys (map fst doc)]),
                   (Stdout, [PStr ''Title:'', PVal (dict_get doc ''title'' (JStr []))]),
                   (Stdout, [PStr ''Text (first 400 chars):'', PVal (JStr (take 400 s))])] @ rest, r))"
    by blast
  from sk have id: "docid = ''d1''"
    by (simp add: sample_keys_def Let_def)
  with doc have d: "doc = [(''text'', JStr ''hello world''), (''_id'', JStr ''d1''), (''title'', JStr ''T'')]"
    by simp
  have t: "doc_text doc = JStr ''hello world''"
    unfolding d by (simp add: doc_text_def py_or_def dict_get_def)
  from rep [rule_format, OF t] show ?thesis
    using ne l unfolding id d by (simp add: dict_get_def)
qed
lemma main_missing_file:
  assumes "files rt (dp @ [''corpus.jsonl'']) = None \<or> files rt (dp @ [''queries.jsonl'']) = None \<or>
           files rt (dp @ [''qrels'', split @ ''.tsv'']) = None"
  shows "snd (main rt rnd dp split) = Inr 2"
  using assms by (auto simp: main_def Let_def)

lemma main_loader_error:
  assumes "files rt (dp @ [''corpus.jsonl'']) \<noteq> None" "files rt (dp @ [''queries.jsonl'']) \<noteq> None"
    "files rt (dp @ [''qrels'', split @ ''.tsv'']) \<noteq> None"
    and "load_all rt (dp @ [''corpus.jsonl'']) (dp @ [''queries.jsonl'']) (dp @ [''qrels'', split @ ''.tsv'']) = Inl e"
  shows "main rt rnd dp split = ([(Stderr, [PStr ''ERROR:'', PErr e])], Inr 1)"
  using assms by (simp add: main_def Let_def)

lemma report_exit_code:
  "snd (report rnd corpus queries qrels) = Inr c \<Longrightarrow> c = 0"
  by (auto simp: report_def Let_def split: prod.splits option.splits)

lemma main_exit_code:
  "snd (main rt rnd dp split) = Inr c \<Longrightarrow> c = 0 \<or> c = 1 \<or> c = 2"
  using report_exit_code
  by (auto simp: main_def Let_def split: if_splits sum.splits prod.splits)

text \<open>
  C5 does not hold of the code. The three files of this dataset exist and load; the
  only document has the number 5 in its \<^verbatim>\<open>text\<close> field, the slice \<^verbatim>\<open>text[:400]\<close> of line 110
  raises \<^verbatim>\<open>TypeError\<close>, and the exception leaves \<^verbatim>\<open>main\<close> after the first six lines of the
  report: no exit code is returned.
\<close>

theorem main_raises_on_number_text:
  "load_all toy [''num'', ''corpus.jsonl''] [''num'', ''queries.jsonl''] [''num'', ''qrels'', ''test.tsv''] =
     Inr ([(''d1'', [(''text'', JInt 5), (''_id'', JStr ''d1'')])],
          [(''q1'', [(''text'', JStr ''hi''), (''_id'', JStr ''q1'')])],
          [(''q1'', [(''d1'', 1)])]) \<and>
   main toy rnd [''num''] ''test'' =
     ([(Stdout, [PFmt [PStr ''corpus size: '', PNum 1]]),
       (Stdout, [PFmt [PStr ''queries size: '', PNum 1]]),
       (Stdout, [PFmt [PStr ''qrels size: '', PNum 1]]),
       (Stdout, [PStr (CHR 0x0A # ''Sample doc id:''), PStr ''d1'']),
       (Stdout, [PStr ''Fields:'', PKeys [''text'', ''_id'']]),
       (Stdout, [PStr ''Title:'', PVal (JStr [])])],
      Inl TypeError)"
proof -
  have l: "load_all toy [''num'', ''corpus.jsonl''] [''num'', ''queries.jsonl''] [''num'', ''qrels'', ''test.tsv''] =
     Inr ([(''d1'', [(''text'', JInt 5), (''_id'', JStr ''d1'')])],
          [(''q1'', [(''text'', JStr ''hi''), (''_id'', JStr ''q1'')])],
          [(''q1'', [(''d1'', 1)])])"
    by code_simp
  have f: "filter (\<lambda>p. files toy p = None)
             [[''num'', ''corpus.jsonl''], [''num'', ''queries.jsonl''], [''num'', ''qrels'', ''test.tsv'']] = []"
    by code_simp
  have s: "show_doc ''d1'' [(''text'', JInt 5), (''_id'', JStr ''d1'')] =
     ([(Stdout, [PStr (CHR 0x0A # ''Sample doc id:''), PStr ''d1'']),
       (Stdout, [PStr ''Fields:'', PKeys [''text'', ''_id'']]),
       (Stdout, [PStr ''Title:'', PVal (JStr [])])], Some TypeError)"
    by code_simp
  have r: "report rnd [(''d1'', [(''text'', JInt 5), (''_id'', JStr ''d1'')])]
             [(''q1'', [(''text'', JStr ''hi''), (''_id'', JStr ''q1'')])] [(''q1'', [(''d1'', 1)])] =
     ([(Stdout, [PFmt [PStr ''corpus size: '', PNum 1]]),
       (Stdout, [PFmt [PStr ''queries size: '', PNum 1]]),
       (Stdout, [PFmt [PStr ''qrels size: '', PNum 1]]),
       (Stdout, [PStr (CHR 0x0A # ''Sample doc id:''), PStr ''d1'']),
       (Stdout, [PStr ''Fields:'', PKeys [''text'', ''_id'']]),
       (Stdout, [PStr ''Title:'', PVal (JStr [])])],
      Inl TypeError)"
  proof -
    have sk: "sample_keys rnd [(''d1'', [(''text'', JInt 5), (''_id'', JStr ''d1'')])] 1 =
                ([''d1''], \<lambda>i. rnd (Suc i))"
      using sample_keys_one [of "[(''d1'', [(''text'', JInt 5), (''_id'', JStr ''d1'')])]" rnd] by simp
    have sd: "show_docs [(''d1'', [(''text'', JInt 5), (''_id'', JStr ''d1'')])] [''d1''] =
     ([(Stdout, [PStr (CHR 0x0A # ''Sample doc id:''), PStr ''d1'']),
       (Stdout, [PStr ''Fields:'', PKeys [''text'', ''_id'']]),
       (Stdout, [PStr ''Title:'', PVal (JStr [])])], Some TypeError)"
      using s by simp
    show ?thesis
      unfolding report_def Let_def sk prod.case sd option.case by simp
  qed
  have "main toy rnd [''num''] ''test'' =
          report rnd [(''d1'', [(''text'', JInt 5), (''_id'', JStr ''d1'')])]
             [(''q1'', [(''text'', JStr ''hi''), (''_id'', JStr ''q1'')])] [(''q1'', [(''d1'', 1)])]"
    unfolding main_def Let_def using f l by simp
  with l r show ?thesis
    by simp
qed

end
